theory Spec2Isabelle
  imports Main
begin

section \<open>JavaScript values that reach the dashboard's handlers\<close>

text \<open>
  Both message handlers of the dashboard (\<^verbatim>\<open>socket.onmessage\<close> in
  \<^verbatim>\<open>WebSocketMessages.js\<close> and \<^verbatim>\<open>handleMessage\<close> in
  \<^verbatim>\<open>hooks/useDevicePingStatus.js\<close>) start with
  \<^verbatim>\<open>JSON.parse(event.data)\<close>. \<^verbatim>\<open>JSON.parse\<close> belongs to the
  JavaScript runtime, not to the repository, so a frame is modelled by what
  \<^verbatim>\<open>JSON.parse\<close> does on its text: it throws a \<^verbatim>\<open>SyntaxError\<close>
  (\<open>NotJSON\<close>) or it returns a value (\<open>Parsed v\<close>).

  A parsed value is \<^verbatim>\<open>null\<close>, a boolean, a number, a string, an array or
  an object whose properties are kept in JavaScript's enumeration order.
  Numbers are the integers (floating point formatting is outside this model).
  A string is a list of code units below 256 (the Latin-1 range), one
  \<^typ>\<open>char\<close> each. \<^verbatim>\<open>undefined\<close> is never the result of
  \<^verbatim>\<open>JSON.parse\<close>; where a property read can yield it, the model uses
  \<open>json option\<close> with \<open>None\<close> for \<^verbatim>\<open>undefined\<close>.
\<close>

datatype json = JNull | JBool bool | JNum int | JStr string
  | JArr "json list" | JObj "(string \<times> json) list"

datatype frame = NotJSON | Parsed json

datatype js_error = SyntaxError | TypeError

text \<open>
  \<^verbatim>\<open>data.topic\<close>: reading a property of \<^verbatim>\<open>null\<close> throws a
  \<^verbatim>\<open>TypeError\<close>; an object yields its own property or \<^verbatim>\<open>undefined\<close>;
  every other parsed value yields \<^verbatim>\<open>undefined\<close> for the two names the
  code reads (\<^verbatim>\<open>topic\<close> and \<^verbatim>\<open>payload\<close> are on no prototype).
\<close>

fun get_property :: "json \<Rightarrow> string \<Rightarrow> js_error + json option" where
  "get_property JNull k = Inl TypeError"
| "get_property (JObj kvs) k = Inr (map_of kvs k)"
| "get_property v k = Inr None"

text \<open>\<^verbatim>\<open>data?.topic\<close>: optional chaining yields \<^verbatim>\<open>undefined\<close> on \<^verbatim>\<open>null\<close>.\<close>

fun optional_chain :: "json \<Rightarrow> string \<Rightarrow> json option" where
  "optional_chain (JObj kvs) k = map_of kvs k"
| "optional_chain v k = None"

text \<open>
  Truthiness (\<^verbatim>\<open>ToBoolean\<close>): \<^verbatim>\<open>undefined\<close>, \<^verbatim>\<open>null\<close>,
  \<^verbatim>\<open>false\<close>, \<^verbatim>\<open>0\<close> and the empty string are falsy, everything
  else (arrays and objects included) is truthy.
\<close>

fun truthy :: "json option \<Rightarrow> bool" where
  "truthy None = False"
| "truthy (Some JNull) = False"
| "truthy (Some (JBool b)) = b"
| "truthy (Some (JNum n)) = (n \<noteq> 0)"
| "truthy (Some (JStr s)) = (s \<noteq> [])"
| "truthy (Some (JArr xs)) = True"
| "truthy (Some (JObj kvs)) = True"

subsection \<open>Conversion to strings\<close>

function digits :: "nat \<Rightarrow> string" where
  "digits n = (if n < 10 then [''0123456789'' ! n]
               else digits (n div 10) @ [''0123456789'' ! (n mod 10)])"
  by pat_completeness auto
termination
  by (relation "measure id") auto

declare digits.simps [simp del]

definition Number_toString :: "int \<Rightarrow> string" where
  "Number_toString n = (if n < 0 then CHR ''-'' # digits (nat (- n)) else digits (nat n))"

text \<open>
  \<^verbatim>\<open>String(p)\<close> on a parsed value. An array is joined with commas, a
  \<^verbatim>\<open>null\<close> element giving the empty string. An object gives
  \<^verbatim>\<open>[object Object]\<close>, unless it has an own property \<^verbatim>\<open>toString\<close>:
  a parsed property is never callable, so the conversion then finds no usable
  method and throws a \<^verbatim>\<open>TypeError\<close>.
\<close>

fun ToString :: "json \<Rightarrow> js_error + string"
  and Array_join :: "json list \<Rightarrow> js_error + string" where
  "ToString JNull = Inr ''null''"
| "ToString (JBool b) = Inr (if b then ''true'' else ''false'')"
| "ToString (JNum n) = Inr (Number_toString n)"
| "ToString (JStr s) = Inr s"
| "ToString (JArr xs) = Array_join xs"
| "ToString (JObj kvs) =
     (if map_of kvs ''toString'' = None then Inr ''[object Object]'' else Inl TypeError)"
| "Array_join [] = Inr []"
| "Array_join [x] = (if x = JNull then Inr [] else ToString x)"
| "Array_join (x # y # ys) =
     (case (if x = JNull then Inr [] else ToString x) of
        Inl e \<Rightarrow> Inl e
      | Inr s \<Rightarrow> (case Array_join (y # ys) of
          Inl e \<Rightarrow> Inl e
        | Inr r \<Rightarrow> Inr (s @ '','' @ r)))"

fun String_js :: "json option \<Rightarrow> js_error + string" where
  "String_js None = Inr ''undefined''"
| "String_js (Some v) = ToString v"

text \<open>
  \<^verbatim>\<open>trim()\<close> removes white space and line terminators from both ends; in
  the Latin-1 range these are the code units 9 to 13, 32 and 160.
  \<^verbatim>\<open>toLowerCase()\<close> maps \<^verbatim>\<open>A\<close> to \<^verbatim>\<open>Z\<close> and the Latin-1 capitals
  192 to 222 (but not 215, the multiplication sign) to the code unit 32 above.
\<close>

definition isWhiteSpace :: "char \<Rightarrow> bool" where
  "isWhiteSpace c = ((of_char c :: nat) \<in> set [9, 10, 11, 12, 13, 32, 160])"

definition trim :: "string \<Rightarrow> string" where
  "trim s = rev (dropWhile isWhiteSpace (rev (dropWhile isWhiteSpace s)))"

definition toLowerCase_char :: "char \<Rightarrow> char" where
  "toLowerCase_char c =
     (let n = (of_char c :: nat)
      in if (65 \<le> n \<and> n \<le> 90) \<or> (192 \<le> n \<and> n \<le> 222 \<and> n \<noteq> 215)
         then char_of (n + 32) else c)"

definition toLowerCase :: "string \<Rightarrow> string" where
  "toLowerCase s = map toLowerCase_char s"

section \<open>The presence tracker's payload tests (useDevicePingStatus.js, lines 9 to 13)\<close>

text \<open>
  \<^verbatim>\<open>const isHi = (p) => String(p).trim().toLowerCase() === "hi!";\<close> and
  \<^verbatim>\<open>isBye\<close>, which accepts \<^verbatim>\<open>"byebye"\<close> and \<^verbatim>\<open>"offline"\<close>. Either
  throws when \<^verbatim>\<open>String(p)\<close> does.
\<close>

definition isHi :: "json option \<Rightarrow> js_error + bool" where
  "isHi p = (case String_js p of
               Inl e \<Rightarrow> Inl e
             | Inr s \<Rightarrow> Inr (toLowerCase (trim s) = ''hi!''))"

definition isBye :: "json option \<Rightarrow> js_error + bool" where
  "isBye p = (case String_js p of
                Inl e \<Rightarrow> Inl e
              | Inr s \<Rightarrow> (let v = toLowerCase (trim s)
                          in Inr (v = ''byebye'' \<or> v = ''offline'')))"

text \<open>
  The specification's reading of the same test, written without the two
  library calls: a string matches a token when it is the token in some mix of
  upper and lower case, with nothing but white space before and after it.
\<close>

definition spec_matches :: "string \<Rightarrow> string \<Rightarrow> bool" where
  "spec_matches s token =
     (\<exists>l m r. s = l @ m @ r \<and> list_all isWhiteSpace l \<and> list_all isWhiteSpace r
        \<and> map toLowerCase_char m = token)"

section \<open>The channel manager and message classifier (WebSocketMessages.js)\<close>

subsection \<open>Serialisation\<close>

text \<open>
  \<^verbatim>\<open>JSON.stringify(data)\<close> on a parsed value: no white space, the properties
  of an object in their order, strings quoted with the escapes of the
  standard (the quote, the backslash and the control characters).
\<close>

definition QuoteJSONString_char :: "char \<Rightarrow> string" where
  "QuoteJSONString_char c =
     (let n = (of_char c :: nat)
      in if n = 8 then [CHR 0x5C, CHR ''b'']
         else if n = 9 then [CHR 0x5C, CHR ''t'']
         else if n = 10 then [CHR 0x5C, CHR ''n'']
         else if n = 12 then [CHR 0x5C, CHR ''f'']
         else if n = 13 then [CHR 0x5C, CHR ''r'']
         else if n = 34 then [CHR 0x5C, CHR 0x22]
         else if n = 92 then [CHR 0x5C, CHR 0x5C]
         else if n < 32 then [CHR 0x5C, CHR ''u'', CHR ''0'', CHR ''0'',
                              ''0123456789abcdef'' ! (n div 16), ''0123456789abcdef'' ! (n mod 16)]
         else [c])"

definition QuoteJSONString :: "string \<Rightarrow> string" where
  "QuoteJSONString s = [CHR 0x22] @ concat (map QuoteJSONString_char s) @ [CHR 0x22]"

fun JSON_stringify :: "json \<Rightarrow> string"
  and stringify_elements :: "json list \<Rightarrow> string"
  and stringify_properties :: "(string \<times> json) list \<Rightarrow> string" where
  "JSON_stringify JNull = ''null''"
| "JSON_stringify (JBool b) = (if b then ''true'' else ''false'')"
| "JSON_stringify (JNum n) = Number_toString n"
| "JSON_stringify (JStr s) = QuoteJSONString s"
| "JSON_stringify (JArr xs) = ''['' @ stringify_elements xs @ '']''"
| "JSON_stringify (JObj kvs) = ''{'' @ stringify_properties kvs @ ''}''"
| "stringify_elements [] = []"
| "stringify_elements [x] = JSON_stringify x"
| "stringify_elements (x # y # ys) = JSON_stringify x @ '','' @ stringify_elements (y # ys)"
| "stringify_properties [] = []"
| "stringify_properties [(k, v)] = QuoteJSONString k @ '':'' @ JSON_stringify v"
| "stringify_properties ((k, v) # p # ps) =
     QuoteJSONString k @ '':'' @ JSON_stringify v @ '','' @ stringify_properties (p # ps)"

subsection \<open>The component's state and the browser resources it creates\<close>

datatype ready_state = CONNECTING | OPEN | CLOSING | CLOSED

record socket =
  readyState :: ready_state
  pingInterval :: "nat option"
  sent :: "string list"

text \<open>The lines the handlers write with \<^verbatim>\<open>console.log\<close> and \<^verbatim>\<open>console.error\<close>.\<close>

datatype log_line =
    LogConnected
  | LogDuplicate json
  | LogIgnored json
  | LogParseError js_error
  | LogClosed
  | LogSocketError

text \<open>
  \<open>messages\<close>, \<open>ws\<close> and \<open>lastMessageRef\<close> are the component's
  \<^verbatim>\<open>useState\<close> and \<^verbatim>\<open>useRef\<close> cells. The other fields are the browser's
  side: the sockets made by \<^verbatim>\<open>new WebSocket\<close> (numbered in order of
  creation), the running intervals (handle, socket whose ping it sends, period
  in ms), the pending timeouts (handle, delay in ms; each one's callback is
  \<^verbatim>\<open>() => connect()\<close>), the next timer handle (the browser hands out
  positive numbers, so handle \<open>h\<close> stands for the ID \<open>h + 1\<close> and every
  handle is truthy), and the console. \<open>cleanup_ws\<close> is the value of
  \<^verbatim>\<open>ws\<close> that the cleanup function returned by the effect closed over.
\<close>

record wsm =
  messages :: "json list"
  ws :: "nat option"
  lastMessageRef :: "string option"
  cleanup_ws :: "nat option"
  sockets :: "nat \<rightharpoonup> socket"
  next_socket :: nat
  intervals :: "(nat \<times> nat \<times> nat) list"
  timeouts :: "(nat \<times> nat) list"
  next_handle :: nat
  console :: "log_line list"

definition initial :: wsm where
  "initial = \<lparr> messages = [], ws = None, lastMessageRef = None, cleanup_ws = None,
               sockets = Map.empty, next_socket = 0, intervals = [], timeouts = [],
               next_handle = 0, console = [] \<rparr>"

subsection \<open>socket.onmessage (lines 20 to 40)\<close>

text \<open>The test \<^verbatim>\<open>data.topic && data.payload !== undefined\<close>, left to right.\<close>

definition is_iot :: "json \<Rightarrow> js_error + bool" where
  "is_iot data =
     (case get_property data ''topic'' of
        Inl e \<Rightarrow> Inl e
      | Inr topic \<Rightarrow>
          if truthy topic
          then (case get_property data ''payload'' of
                  Inl e \<Rightarrow> Inl e
                | Inr payload \<Rightarrow> Inr (payload \<noteq> None))
          else Inr False)"

text \<open>The body of the \<^verbatim>\<open>try\<close> block; \<open>Inl\<close> is an exception thrown in it.\<close>

definition onmessage_try :: "wsm \<Rightarrow> frame \<Rightarrow> js_error + wsm" where
  "onmessage_try st ev =
     (case ev of
        NotJSON \<Rightarrow> Inl SyntaxError
      | Parsed data \<Rightarrow>
          (case is_iot data of
             Inl e \<Rightarrow> Inl e
           | Inr True \<Rightarrow>
               (let msgString = JSON_stringify data
                in if Some msgString \<noteq> lastMessageRef st
                   then Inr (st\<lparr> lastMessageRef := Some msgString,
                                messages := messages st @ [data] \<rparr>)
                   else Inr (st\<lparr> console := console st @ [LogDuplicate data] \<rparr>))
           | Inr False \<Rightarrow> Inr (st\<lparr> console := console st @ [LogIgnored data] \<rparr>)))"

text \<open>The handler: the \<^verbatim>\<open>catch\<close> clause logs the exception and returns.\<close>

definition onmessage :: "wsm \<Rightarrow> frame \<Rightarrow> wsm" where
  "onmessage st ev =
     (case onmessage_try st ev of
        Inl e \<Rightarrow> st\<lparr> console := console st @ [LogParseError e] \<rparr>
      | Inr st' \<Rightarrow> st')"

text \<open>A sequence of inbound frames, handled one at a time in arrival order.\<close>

definition receive :: "wsm \<Rightarrow> frame list \<Rightarrow> wsm" where
  "receive st evs = foldl onmessage st evs"

subsection \<open>connect, the other socket handlers and the timers (lines 11 to 67)\<close>

definition clearInterval :: "nat \<Rightarrow> wsm \<Rightarrow> wsm" where
  "clearInterval h st = st\<lparr> intervals := filter (\<lambda>e. fst e \<noteq> h) (intervals st) \<rparr>"

text \<open>
  \<^verbatim>\<open>connect()\<close>: a new socket, its handlers, its keep-alive interval of
  60000 ms stored in \<^verbatim>\<open>socket.pingInterval\<close>, and \<^verbatim>\<open>setWs(socket)\<close>.
\<close>

definition connect :: "wsm \<Rightarrow> wsm" where
  "connect st =
     (let s = next_socket st; h = next_handle st
      in st\<lparr> sockets := (sockets st)(s \<mapsto>
                  \<lparr> readyState = CONNECTING, pingInterval = Some h, sent = [] \<rparr>),
              next_socket := Suc s,
              intervals := intervals st @ [(h, s, 60000)],
              next_handle := Suc h,
              ws := Some s \<rparr>)"

definition onopen :: "nat \<Rightarrow> wsm \<Rightarrow> wsm" where
  "onopen s st = st\<lparr> console := console st @ [LogConnected] \<rparr>"

text \<open>
  \<^verbatim>\<open>socket.onclose\<close>: log, clear this socket's keep-alive interval, and
  \<^verbatim>\<open>setTimeout(() => connect(), 3000)\<close>.
\<close>

definition onclose :: "nat \<Rightarrow> wsm \<Rightarrow> wsm" where
  "onclose s st =
     (let st1 = st\<lparr> console := console st @ [LogClosed] \<rparr>;
          st2 = (case sockets st1 s of
                   None \<Rightarrow> st1
                 | Some sk \<Rightarrow> (case pingInterval sk of
                               None \<Rightarrow> st1
                             | Some h \<Rightarrow> clearInterval h st1))
      in st2\<lparr> timeouts := timeouts st2 @ [(next_handle st2, 3000)],
               next_handle := Suc (next_handle st2) \<rparr>)"

text \<open>
  \<^verbatim>\<open>socket.close()\<close> starts the closing handshake of a socket that is
  connecting or open, and does nothing otherwise; the browser reports the end
  of the handshake later with a close event.
\<close>

definition socket_close :: "nat \<Rightarrow> wsm \<Rightarrow> wsm" where
  "socket_close s st =
     (case sockets st s of
        None \<Rightarrow> st
      | Some sk \<Rightarrow>
          if readyState sk = CONNECTING \<or> readyState sk = OPEN
          then st\<lparr> sockets := (sockets st)(s \<mapsto> sk\<lparr> readyState := CLOSING \<rparr>) \<rparr>
          else st)"

definition onerror :: "nat \<Rightarrow> wsm \<Rightarrow> wsm" where
  "onerror s st = socket_close s (st\<lparr> console := console st @ [LogSocketError] \<rparr>)"

text \<open>The keep-alive callback: \<^verbatim>\<open>socket.send("ping")\<close> if the socket is open.\<close>

definition ping :: "nat \<Rightarrow> wsm \<Rightarrow> wsm" where
  "ping s st =
     (case sockets st s of
        None \<Rightarrow> st
      | Some sk \<Rightarrow>
          if readyState sk = OPEN
          then st\<lparr> sockets := (sockets st)(s \<mapsto> sk\<lparr> sent := sent sk @ [''ping''] \<rparr>) \<rparr>
          else st)"

text \<open>
  The effect of lines 62 to 67. Its dependency list is \<^verbatim>\<open>[connect]\<close> and
  \<^verbatim>\<open>connect\<close> is memoised with no dependencies, so it runs once, after the
  first render; the cleanup it returns reads the \<^verbatim>\<open>ws\<close> of that render.
\<close>

definition useEffect_mount :: "wsm \<Rightarrow> wsm" where
  "useEffect_mount st = (connect st)\<lparr> cleanup_ws := ws st \<rparr>"

definition useEffect_cleanup :: "wsm \<Rightarrow> wsm" where
  "useEffect_cleanup st =
     (case cleanup_ws st of
        None \<Rightarrow> st
      | Some s \<Rightarrow> socket_close s st)"

text \<open>
  What the browser and React do to the component: a socket opens, delivers a
  frame, reports an error or closes; an interval ticks; a timeout fires (once,
  and runs \<^verbatim>\<open>connect\<close>); the component is mounted (its effect runs) or
  unmounted (the effect's cleanup runs).
\<close>

datatype event =
    Mount
  | Open nat
  | Frame nat frame
  | Error nat
  | Close nat
  | Tick nat
  | Fire nat
  | Unmount

definition set_readyState :: "nat \<Rightarrow> ready_state \<Rightarrow> wsm \<Rightarrow> wsm" where
  "set_readyState s r st =
     (case sockets st s of
        None \<Rightarrow> st
      | Some sk \<Rightarrow> st\<lparr> sockets := (sockets st)(s \<mapsto> sk\<lparr> readyState := r \<rparr>) \<rparr>)"

fun step :: "wsm \<Rightarrow> event \<Rightarrow> wsm" where
  "step st Mount = useEffect_mount st"
| "step st (Open s) = onopen s (set_readyState s OPEN st)"
| "step st (Frame s ev) = onmessage st ev"
| "step st (Error s) = onerror s st"
| "step st (Close s) = onclose s (set_readyState s CLOSED st)"
| "step st (Tick h) =
     (case find (\<lambda>e. fst e = h) (intervals st) of
        None \<Rightarrow> st
      | Some e \<Rightarrow> ping (fst (snd e)) st)"
| "step st (Fire h) =
     (if h \<in> fst ` set (timeouts st)
      then connect (st\<lparr> timeouts := filter (\<lambda>e. fst e \<noteq> h) (timeouts st) \<rparr>)
      else st)"
| "step st Unmount = useEffect_cleanup st"

definition run :: "wsm \<Rightarrow> event list \<Rightarrow> wsm" where
  "run st evs = foldl step st evs"

section \<open>The presence tracker (hooks/useDevicePingStatus.js)\<close>

datatype presence = Checking | Online | Offline

record props =
  apiUrl :: string
  deviceId :: string

text \<open>A \<^verbatim>\<open>POST\<close> made with \<^verbatim>\<open>fetch\<close>: the URL and the three fields of its body.\<close>

record request =
  url :: string
  body_deviceId :: string
  body_path :: string
  body_value :: string

datatype tracker_log = LogFetchError | LogMessageError js_error

text \<open>
  \<open>status\<close> and \<open>timerRef\<close> are the hook's \<^verbatim>\<open>useState\<close> and
  \<^verbatim>\<open>useRef\<close> cells. The browser's side: the pending timeouts made by
  \<^verbatim>\<open>ask\<close> (handle and the time in ms at which it is due; each one's
  callback is \<^verbatim>\<open>() => setStatus("offline")\<close>), the next handle, the clock,
  the number of calls of \<^verbatim>\<open>ask\<close> that are suspended at
  \<^verbatim>\<open>await fetch(...)\<close>, the requests sent so far and the console.
\<close>

record tracker =
  status :: presence
  timerRef :: "nat option"
  pending :: "(nat \<times> nat) list"
  next_timer :: nat
  clock :: nat
  suspended :: nat
  requests :: "request list"
  tracker_console :: "tracker_log list"

definition tracker_initial :: tracker where
  "tracker_initial = \<lparr> status = Checking, timerRef = None, pending = [], next_timer = 0,
                       clock = 0, suspended = 0, requests = [], tracker_console = [] \<rparr>"

text \<open>\<^verbatim>\<open>if (timerRef.current) clearTimeout(timerRef.current);\<close>\<close>

definition clear_timerRef :: "tracker \<Rightarrow> tracker" where
  "clear_timerRef st =
     (case timerRef st of
        None \<Rightarrow> st
      | Some h \<Rightarrow> st\<lparr> pending := filter (\<lambda>e. fst e \<noteq> h) (pending st) \<rparr>)"

text \<open>
  \<^verbatim>\<open>ask\<close> (lines 16 to 36) is an \<^verbatim>\<open>async\<close> function. A call runs to
  \<^verbatim>\<open>await fetch(...)\<close> at once: it sets the status, clears the timeout
  that \<^verbatim>\<open>timerRef\<close> holds and sends the request (\<open>ask_begin\<close>). It goes
  on when the request settles (\<open>ask_resume\<close>, with \<open>False\<close> for a rejected
  request, which is logged): only then is the timeout of 4000 ms made and
  stored in \<^verbatim>\<open>timerRef\<close>. Other events can be handled in between.
\<close>

definition ask_begin :: "props \<Rightarrow> tracker \<Rightarrow> tracker" where
  "ask_begin p st =
     (let st1 = clear_timerRef (st\<lparr> status := Checking \<rparr>)
      in st1\<lparr> requests := requests st1 @
                  [\<lparr> url = apiUrl p, body_deviceId = deviceId p,
                     body_path = ''askInfo'', body_value = ''hi'' \<rparr>],
               suspended := Suc (suspended st1) \<rparr>)"

definition ask_resume :: "bool \<Rightarrow> tracker \<Rightarrow> tracker" where
  "ask_resume ok st =
     (if suspended st = 0 then st
      else (let st1 = (if ok then st
                       else st\<lparr> tracker_console := tracker_console st @ [LogFetchError] \<rparr>);
                h = next_timer st1
            in st1\<lparr> suspended := suspended st1 - 1,
                     timerRef := Some h,
                     pending := pending st1 @ [(h, clock st1 + 4000)],
                     next_timer := Suc h \<rparr>))"

text \<open>A timeout that is due fires once: \<^verbatim>\<open>setStatus("offline")\<close>.\<close>

definition expire :: "nat \<Rightarrow> tracker \<Rightarrow> tracker" where
  "expire h st =
     (if h \<in> fst ` set (pending st)
      then st\<lparr> pending := filter (\<lambda>e. fst e \<noteq> h) (pending st), status := Offline \<rparr>
      else st)"

text \<open>Time passes: the clock moves on and every timeout due by then fires.\<close>

definition advance :: "nat \<Rightarrow> tracker \<Rightarrow> tracker" where
  "advance d st =
     (let t = clock st + d
      in foldl (\<lambda>s e. expire (fst e) s) (st\<lparr> clock := t \<rparr>)
           (filter (\<lambda>e. snd e \<le> t) (pending st)))"

text \<open>
  \<^verbatim>\<open>handleMessage\<close> (lines 41 to 77). \<open>go_online\<close> and \<open>go_offline\<close> are
  the two statements each branch runs before it returns; the three topics are
  the string literals of the source.
\<close>

definition go_online :: "tracker \<Rightarrow> tracker" where
  "go_online st = clear_timerRef (st\<lparr> status := Online \<rparr>)"

definition go_offline :: "tracker \<Rightarrow> tracker" where
  "go_offline st = clear_timerRef (st\<lparr> status := Offline \<rparr>)"

definition status_branch :: "tracker \<Rightarrow> json option \<Rightarrow> json option \<Rightarrow> js_error + tracker" where
  "status_branch st topic payload =
     (if topic = Some (JStr ''mod_1x1/d_000/status'')
      then (case isBye payload of
              Inl e \<Rightarrow> Inl e
            | Inr b \<Rightarrow> Inr (if b then go_offline st else st))
      else Inr st)"

definition will_branch :: "tracker \<Rightarrow> json option \<Rightarrow> json option \<Rightarrow> js_error + tracker" where
  "will_branch st topic payload =
     (if topic = Some (JStr ''mod_1x1/d_000/will'')
      then (case isHi payload of
              Inl e \<Rightarrow> Inl e
            | Inr True \<Rightarrow> Inr (go_online st)
            | Inr False \<Rightarrow>
                (case isBye payload of
                   Inl e \<Rightarrow> Inl e
                 | Inr True \<Rightarrow> Inr (go_offline st)
                 | Inr False \<Rightarrow> status_branch st topic payload))
      else status_branch st topic payload)"

definition handleMessage_try :: "tracker \<Rightarrow> frame \<Rightarrow> js_error + tracker" where
  "handleMessage_try st ev =
     (case ev of
        NotJSON \<Rightarrow> Inl SyntaxError
      | Parsed data \<Rightarrow>
          (let topic = optional_chain data ''topic'';
               payload = optional_chain data ''payload''
           in if topic = Some (JStr ''mod_1x1/d_000/answerInfo'')
              then (case isHi payload of
                      Inl e \<Rightarrow> Inl e
                    | Inr True \<Rightarrow> Inr (go_online st)
                    | Inr False \<Rightarrow> will_branch st topic payload)
              else will_branch st topic payload))"

definition handleMessage :: "tracker \<Rightarrow> frame \<Rightarrow> tracker" where
  "handleMessage st ev =
     (case handleMessage_try st ev of
        Inl e \<Rightarrow> st\<lparr> tracker_console := tracker_console st @ [LogMessageError e] \<rparr>
      | Inr st' \<Rightarrow> st')"

text \<open>
  The events of a tracker for the device of \<open>p\<close>: a check is requested (the
  effect does so when the socket is open, the button at any time), a request
  settles, a frame arrives, time passes.
\<close>

datatype tracker_event =
    Ask
  | Settled bool
  | Message frame
  | Advance nat

fun tracker_step :: "props \<Rightarrow> tracker \<Rightarrow> tracker_event \<Rightarrow> tracker" where
  "tracker_step p st Ask = ask_begin p st"
| "tracker_step p st (Settled ok) = ask_resume ok st"
| "tracker_step p st (Message ev) = handleMessage st ev"
| "tracker_step p st (Advance d) = advance d st"

definition track :: "props \<Rightarrow> tracker_event list \<Rightarrow> tracker" where
  "track p evs = foldl (tracker_step p) tracker_initial evs"

text \<open>A frame with the given topic and string payload, as \<^verbatim>\<open>JSON.parse\<close> returns it.\<close>

definition iot_frame :: "string \<Rightarrow> json \<Rightarrow> frame" where
  "iot_frame topic payload = Parsed (JObj [(''topic'', JStr topic), (''payload'', payload)])"

section \<open>Notions of the specification\<close>

text \<open>
  An event is well formed when its \<^verbatim>\<open>topic\<close> is truthy and its
  \<^verbatim>\<open>payload\<close> is present, whatever its value. A frame is malformed when
  it is not JSON or the value it parses to is not a well-formed event.
\<close>

definition well_formed :: "json \<Rightarrow> bool" where
  "well_formed d = (truthy (optional_chain d ''topic'') \<and> optional_chain d ''payload'' \<noteq> None)"

fun malformed :: "frame \<Rightarrow> bool" where
  "malformed NotJSON = True"
| "malformed (Parsed d) = (\<not> well_formed d)"

text \<open>The one-slot memory holds the serialised form of the last event of the log.\<close>

definition slot_is_last :: "wsm \<Rightarrow> bool" where
  "slot_is_last st =
     (lastMessageRef st =
        (if messages st = [] then None else Some (JSON_stringify (last (messages st)))))"

text \<open>Two announcements on the device's \<^verbatim>\<open>will\<close> topic, used as sample events.\<close>

definition will_hi :: json where
  "will_hi = JObj [(''topic'', JStr ''mod_1x1/d_000/will''), (''payload'', JStr ''hi!'')]"

definition will_bye :: json where
  "will_bye = JObj [(''topic'', JStr ''mod_1x1/d_000/will''), (''payload'', JStr ''byebye'')]"

text \<open>A frame that parses to an object with a topic and no payload.\<close>

definition no_payload :: json where
  "no_payload = JObj [(''topic'', JStr ''mod_1x1/d_000/will'')]"

text \<open>
  Well-formedness of the browser's side of the channel manager: every timer
  handle in use is below the next one to be handed out, every pending timeout
  has the delay of 3000 ms, and every socket has a keep-alive handle.
\<close>

definition timers_ok :: "wsm \<Rightarrow> bool" where
  "timers_ok st =
     (list_all (\<lambda>e. fst e < next_handle st \<and> snd e = 3000) (timeouts st)
      \<and> list_all (\<lambda>e. fst e < next_handle st) (intervals st)
      \<and> (\<forall>s sk. sockets st s = Some sk \<longrightarrow> (\<exists>h. pingInterval sk = Some h)))"

text \<open>
  The tracker's discipline: at most one timeout is pending, and it is the
  one \<^verbatim>\<open>timerRef\<close> holds.
\<close>

definition one_timeout :: "tracker \<Rightarrow> bool" where
  "one_timeout st =
     (pending st = [] \<or> (\<exists>h due. pending st = [(h, due)] \<and> timerRef st = Some h))"

text \<open>
  The connection is lost \<open>n\<close> times in a row: each time the current socket
  closes and the reconnect timeout fires. The \<open>k\<close>-th socket is closed by
  the \<open>k\<close>-th close, and the timeout it schedules has the handle \<open>2k + 1\<close>.
\<close>

definition reconnect_cycles :: "nat \<Rightarrow> event list" where
  "reconnect_cycles n = concat (map (\<lambda>k. [Close k, Fire (2 * k + 1)]) [0..<n])"

section \<open>Payload classification\<close>

lemmas string_eval = trim_def toLowerCase_def toLowerCase_char_def isWhiteSpace_def
  char_of_def bit_iff_odd Number_toString_def QuoteJSONString_def QuoteJSONString_char_def

lemma isWhiteSpace_toLowerCase_char: "isWhiteSpace (toLowerCase_char c) = isWhiteSpace c"
proof -
  have b: "(of_char c :: nat) < 256" by simp
  show ?thesis
    using b by (auto simp: isWhiteSpace_def toLowerCase_char_def Let_def)
qed

lemma dropWhile_all: "list_all P xs \<Longrightarrow> dropWhile P (xs @ ys) = dropWhile P ys"
  by (induction xs) auto

lemma dropWhile_hd: "xs \<noteq> [] \<Longrightarrow> \<not> P (hd xs) \<Longrightarrow> dropWhile P xs = xs"
  by (cases xs) auto

lemma trim_decomp:
  assumes "list_all isWhiteSpace l" "list_all isWhiteSpace r" "m \<noteq> []"
    "\<not> isWhiteSpace (hd m)" "\<not> isWhiteSpace (last m)"
  shows "trim (l @ m @ r) = m"
proof -
  have 1: "dropWhile isWhiteSpace (l @ m @ r) = m @ r"
    using assms(1,3,4) by (simp add: dropWhile_all dropWhile_hd)
  have "list_all isWhiteSpace (rev r)" using assms(2) by (simp add: list_all_iff)
  then have "dropWhile isWhiteSpace (rev r @ rev m) = dropWhile isWhiteSpace (rev m)"
    by (rule dropWhile_all)
  also have "\<dots> = rev m"
    using assms(3,5) by (simp add: dropWhile_hd hd_rev)
  finally have 2: "dropWhile isWhiteSpace (rev (m @ r)) = rev m" by simp
  show ?thesis by (simp only: trim_def 1 2 rev_rev_ident)
qed

lemma trim_exists:
  "\<exists>l r. s = l @ trim s @ r \<and> list_all isWhiteSpace l \<and> list_all isWhiteSpace r"
proof -
  let ?d = "dropWhile isWhiteSpace s"
  let ?l = "takeWhile isWhiteSpace s"
  let ?r = "rev (takeWhile isWhiteSpace (rev ?d))"
  have "rev (rev ?d) = rev (takeWhile isWhiteSpace (rev ?d) @ dropWhile isWhiteSpace (rev ?d))"
    by (simp only: takeWhile_dropWhile_id)
  then have "?d = trim s @ ?r" by (simp only: rev_rev_ident rev_append trim_def)
  moreover have "s = ?l @ ?d" by simp
  ultimately have "s = ?l @ trim s @ ?r" by simp
  moreover have "list_all isWhiteSpace ?l" by (simp add: list_all_iff) (meson set_takeWhileD)
  moreover have "list_all isWhiteSpace ?r" by (simp add: list_all_iff) (meson set_takeWhileD)
  ultimately show ?thesis by blast
qed

lemma normalized_eq_iff:
  assumes "token \<noteq> []" "\<not> isWhiteSpace (hd token)" "\<not> isWhiteSpace (last token)"
  shows "(toLowerCase (trim s) = token) = spec_matches s token"
proof
  assume "toLowerCase (trim s) = token"
  then show "spec_matches s token"
    unfolding spec_matches_def toLowerCase_def using trim_exists [of s] by blast
next
  assume "spec_matches s token"
  then obtain l m r where d: "s = l @ m @ r" "list_all isWhiteSpace l" "list_all isWhiteSpace r"
    "map toLowerCase_char m = token" unfolding spec_matches_def by blast
  from d(4) assms(1) have ne: "m \<noteq> []" by auto
  have "hd token = toLowerCase_char (hd m)" using d(4) ne by (auto simp: hd_map)
  then have h: "\<not> isWhiteSpace (hd m)"
    using assms(2) by (simp add: isWhiteSpace_toLowerCase_char)
  have "last token = toLowerCase_char (last m)" using d(4) ne by (auto simp: last_map)
  then have la: "\<not> isWhiteSpace (last m)"
    using assms(3) by (simp add: isWhiteSpace_toLowerCase_char)
  have "trim s = m" unfolding d(1) by (rule trim_decomp [OF d(2) d(3) ne h la])
  then show "toLowerCase (trim s) = token" by (simp add: toLowerCase_def d(4))
qed

lemma hi_iff: "(toLowerCase (trim s) = ''hi!'') = spec_matches s ''hi!''"
  by (rule normalized_eq_iff) (simp_all add: isWhiteSpace_def)

lemma byebye_iff: "(toLowerCase (trim s) = ''byebye'') = spec_matches s ''byebye''"
  by (rule normalized_eq_iff) (simp_all add: isWhiteSpace_def)

lemma offline_iff: "(toLowerCase (trim s) = ''offline'') = spec_matches s ''offline''"
  by (rule normalized_eq_iff) (simp_all add: isWhiteSpace_def)

lemma isHi_spec:
  "isHi p = (case String_js p of Inl e \<Rightarrow> Inl e | Inr s \<Rightarrow> Inr (spec_matches s ''hi!''))"
  by (simp add: isHi_def hi_iff split: sum.splits)

lemma isBye_spec:
  "isBye p = (case String_js p of Inl e \<Rightarrow> Inl e
              | Inr s \<Rightarrow> Inr (spec_matches s ''byebye'' \<or> spec_matches s ''offline''))"
  by (simp add: isBye_def Let_def byebye_iff offline_iff split: sum.splits)

lemma never_hi_and_bye: "\<not> (isHi p = Inr True \<and> isBye p = Inr True)"
  by (auto simp: isHi_def isBye_def Let_def split: sum.splits)

lemma sample_payloads:
  "isHi (Some (JStr ''HI!'')) = Inr True \<and> isHi (Some (JStr '' hi! '')) = Inr True
   \<and> isHi (Some (JStr ''hi!'')) = Inr True
   \<and> isBye (Some (JStr ''ByeBye'')) = Inr True \<and> isBye (Some (JStr ''byebye '')) = Inr True
   \<and> isBye (Some (JStr ''OFFLINE'')) = Inr True
   \<and> isHi (Some (JStr ''hi! there'')) = Inr False \<and> isBye (Some (JStr ''byebye!'')) = Inr False"
  by (simp add: isHi_def isBye_def string_eval)

text \<open>
  C8. A payload is affirmative exactly when its string form is \<^verbatim>\<open>hi!\<close> in
  any mix of upper and lower case with only white space around it, and
  negative exactly when it is \<^verbatim>\<open>byebye\<close> or \<^verbatim>\<open>offline\<close> in that sense;
  no payload is both. \<^verbatim>\<open>"HI!"\<close>, \<^verbatim>\<open>" hi! "\<close> and \<^verbatim>\<open>"hi!"\<close> are affirmative,
  \<^verbatim>\<open>"ByeBye"\<close>, \<^verbatim>\<open>"byebye "\<close> and \<^verbatim>\<open>"OFFLINE"\<close> are negative, and a payload
  that only contains a token (\<^verbatim>\<open>"hi! there"\<close>, \<^verbatim>\<open>"byebye!"\<close>) is neither.
\<close>

theorem payload_classification:
  "isHi p = (case String_js p of Inl e \<Rightarrow> Inl e | Inr s \<Rightarrow> Inr (spec_matches s ''hi!''))
   \<and> isBye p = (case String_js p of Inl e \<Rightarrow> Inl e
                | Inr s \<Rightarrow> Inr (spec_matches s ''byebye'' \<or> spec_matches s ''offline''))
   \<and> \<not> (isHi p = Inr True \<and> isBye p = Inr True)
   \<and> isHi (Some (JStr ''HI!'')) = Inr True \<and> isHi (Some (JStr '' hi! '')) = Inr True
   \<and> isHi (Some (JStr ''hi!'')) = Inr True
   \<and> isBye (Some (JStr ''ByeBye'')) = Inr True \<and> isBye (Some (JStr ''byebye '')) = Inr True
   \<and> isBye (Some (JStr ''OFFLINE'')) = Inr True
   \<and> isHi (Some (JStr ''hi! there'')) = Inr False \<and> isBye (Some (JStr ''byebye!'')) = Inr False"
  using isHi_spec [of p] isBye_spec [of p] never_hi_and_bye [of p] sample_payloads by blast

theorem payload_classification_witness:
  "spec_matches ''  Hi!  '' ''hi!'' \<and> \<not> spec_matches ''say hi!'' ''hi!''"
proof -
  have a: "isHi (Some (JStr ''  Hi!  '')) = Inr True" by (simp add: isHi_def string_eval)
  have b: "isHi (Some (JStr ''say hi!'')) = Inr False" by (simp add: isHi_def string_eval)
  from a payload_classification [of "Some (JStr ''  Hi!  '')"]
  have "spec_matches ''  Hi!  '' ''hi!''" by simp
  moreover from b payload_classification [of "Some (JStr ''say hi!'')"]
  have "\<not> spec_matches ''say hi!'' ''hi!''" by simp
  ultimately show ?thesis by simp
qed

section \<open>The message classifier and its one-slot memory\<close>

lemma is_iot_iff: "(is_iot d = Inr True) = well_formed d"
  by (cases d) (auto simp: is_iot_def well_formed_def split: sum.splits)

lemma onmessage_fresh:
  "well_formed d \<Longrightarrow> lastMessageRef st \<noteq> Some (JSON_stringify d) \<Longrightarrow>
   onmessage st (Parsed d) =
     st\<lparr> lastMessageRef := Some (JSON_stringify d), messages := messages st @ [d] \<rparr>"
  using is_iot_iff [of d] by (auto simp: onmessage_def onmessage_try_def)

lemma onmessage_duplicate:
  "well_formed d \<Longrightarrow> lastMessageRef st = Some (JSON_stringify d) \<Longrightarrow>
   onmessage st (Parsed d) = st\<lparr> console := console st @ [LogDuplicate d] \<rparr>"
  using is_iot_iff [of d] by (auto simp: onmessage_def onmessage_try_def)

lemma onmessage_malformed:
  "malformed ev \<Longrightarrow> \<exists>l. onmessage st ev = st\<lparr> console := console st @ [l] \<rparr>"
proof (cases ev)
  case NotJSON
  then have "onmessage st ev = st\<lparr> console := console st @ [LogParseError SyntaxError] \<rparr>"
    by (simp add: onmessage_def onmessage_try_def)
  then show ?thesis by blast
next
  case (Parsed d)
  assume "malformed ev"
  with Parsed have "is_iot d \<noteq> Inr True" using is_iot_iff [of d] by simp
  then have "onmessage st ev = st\<lparr> console := console st @ [LogIgnored d] \<rparr>
      \<or> (\<exists>e. onmessage st ev = st\<lparr> console := console st @ [LogParseError e] \<rparr>)"
    using Parsed
    by (cases "is_iot d") (auto simp: onmessage_def onmessage_try_def split: bool.splits)
  then show ?thesis by blast
qed

lemma onmessage_slot:
  "well_formed d \<Longrightarrow> lastMessageRef (onmessage st (Parsed d)) = Some (JSON_stringify d)"
  by (cases "lastMessageRef st = Some (JSON_stringify d)")
     (simp_all add: onmessage_fresh onmessage_duplicate)

lemma slot_is_last_onmessage: "slot_is_last st \<Longrightarrow> slot_is_last (onmessage st ev)"
proof (cases "malformed ev")
  case True
  assume a: "slot_is_last st"
  from onmessage_malformed [OF True, of st]
  obtain l where "onmessage st ev = st\<lparr> console := console st @ [l] \<rparr>" by blast
  with a show ?thesis by (simp add: slot_is_last_def)
next
  case False
  assume a: "slot_is_last st"
  from False obtain d where d: "ev = Parsed d" "well_formed d" by (cases ev) auto
  show ?thesis
  proof (cases "lastMessageRef st = Some (JSON_stringify d)")
    case True
    with a d show ?thesis by (simp add: onmessage_duplicate slot_is_last_def)
  next
    case False
    with a d show ?thesis by (simp add: onmessage_fresh slot_is_last_def)
  qed
qed

lemma receive_snoc: "receive st (evs @ [ev]) = onmessage (receive st evs) ev"
  by (simp add: receive_def)

lemma receive_append: "receive st (xs @ ys) = receive (receive st xs) ys"
  by (simp add: receive_def)

lemma slot_is_last_receive: "slot_is_last (receive initial evs)"
proof (induction evs rule: rev_induct)
  case Nil
  show ?case by (simp add: receive_def slot_is_last_def initial_def)
next
  case (snoc ev evs)
  then show ?case by (simp add: receive_snoc slot_is_last_onmessage)
qed

text \<open>
  C1. After any sequence of frames \<open>pre\<close>, a well-formed event \<open>f\<close> is
  appended to the log exactly when the log is empty or its last event has
  another serialised form; the same event arriving again at once is not
  appended; and after an event \<open>g\<close> with another serialised form, \<open>f\<close> is
  appended again.
\<close>

theorem dedup_one_slot:
  assumes "well_formed f" and "well_formed g" and "JSON_stringify g \<noteq> JSON_stringify f"
  shows "((messages (receive initial (pre @ [Parsed f])) = messages (receive initial pre) @ [f])
           = (messages (receive initial pre) = []
              \<or> JSON_stringify (last (messages (receive initial pre))) \<noteq> JSON_stringify f))
       \<and> messages (receive initial (pre @ [Parsed f, Parsed f]))
           = messages (receive initial (pre @ [Parsed f]))
       \<and> messages (receive initial (pre @ [Parsed f, Parsed f, Parsed g, Parsed f]))
           = messages (receive initial (pre @ [Parsed f])) @ [g, f]"
proof -
  let ?s0 = "receive initial pre"
  let ?s1 = "onmessage ?s0 (Parsed f)"
  have inv: "slot_is_last ?s0" by (rule slot_is_last_receive)
  have slot1: "lastMessageRef ?s1 = Some (JSON_stringify f)"
    using assms(1) by (rule onmessage_slot)
  have first: "(messages ?s1 = messages ?s0 @ [f])
     = (messages ?s0 = [] \<or> JSON_stringify (last (messages ?s0)) \<noteq> JSON_stringify f)"
  proof (cases "lastMessageRef ?s0 = Some (JSON_stringify f)")
    case True
    then show ?thesis using inv assms(1)
      by (auto simp: onmessage_duplicate slot_is_last_def split: if_splits)
  next
    case False
    then show ?thesis using inv assms(1)
      by (auto simp: onmessage_fresh slot_is_last_def split: if_splits)
  qed
  let ?s2 = "onmessage ?s1 (Parsed f)"
  have s2: "?s2 = ?s1\<lparr> console := console ?s1 @ [LogDuplicate f] \<rparr>"
    using assms(1) slot1 by (rule onmessage_duplicate)
  have slot2: "lastMessageRef ?s2 \<noteq> Some (JSON_stringify g)"
    using slot1 assms(3) by (simp add: s2)
  let ?s3 = "onmessage ?s2 (Parsed g)"
  have s3: "?s3 = ?s2\<lparr> lastMessageRef := Some (JSON_stringify g),
                        messages := messages ?s2 @ [g] \<rparr>"
    using assms(2) slot2 by (rule onmessage_fresh)
  have slot3: "lastMessageRef ?s3 \<noteq> Some (JSON_stringify f)"
    using assms(3) by (simp add: s3)
  let ?s4 = "onmessage ?s3 (Parsed f)"
  have s4: "?s4 = ?s3\<lparr> lastMessageRef := Some (JSON_stringify f),
                        messages := messages ?s3 @ [f] \<rparr>"
    using assms(1) slot3 by (rule onmessage_fresh)
  have m2: "messages ?s2 = messages ?s1" by (simp add: s2)
  have m3: "messages ?s3 = messages ?s2 @ [g]" by (subst s3) simp
  have "messages ?s4 = messages ?s3 @ [f]" by (subst s4) simp
  then have m4: "messages ?s4 = messages ?s1 @ [g, f]"
    by (simp only: m3 m2 append_assoc append_Cons append_Nil)
  have e1: "receive initial (pre @ [Parsed f]) = ?s1" by (simp add: receive_snoc)
  have e2: "receive initial (pre @ [Parsed f, Parsed f]) = ?s2"
    by (simp add: receive_append receive_def)
  have e4: "receive initial (pre @ [Parsed f, Parsed f, Parsed g, Parsed f]) = ?s4"
    by (simp add: receive_append receive_def)
  show ?thesis unfolding e1 e2 e4 using first m2 m4 by simp
qed

theorem dedup_one_slot_witness:
  "messages (receive initial [Parsed will_hi, Parsed will_hi, Parsed will_bye, Parsed will_hi])
     = [will_hi, will_bye, will_hi]"
proof -
  have 1: "well_formed will_hi" by (simp add: well_formed_def will_hi_def)
  have 2: "well_formed will_bye" by (simp add: well_formed_def will_bye_def)
  have 3: "JSON_stringify will_bye \<noteq> JSON_stringify will_hi"
    by (simp add: will_hi_def will_bye_def string_eval)
  have 4: "messages (receive initial []) = []" by (simp add: receive_def initial_def)
  from dedup_one_slot [OF 1 2 3, of "[]"] 4 show ?thesis by simp
qed

lemma appended_iff_accepted:
  "(messages (onmessage st ev) = messages st @ [d])
     = (ev = Parsed d \<and> well_formed d \<and> lastMessageRef st \<noteq> Some (JSON_stringify d))"
proof (cases "malformed ev")
  case True
  from onmessage_malformed [OF True, of st]
  obtain l where "onmessage st ev = st\<lparr> console := console st @ [l] \<rparr>" by blast
  then have "messages (onmessage st ev) = messages st" by simp
  with True show ?thesis by (cases ev) auto
next
  case False
  then obtain d' where d': "ev = Parsed d'" "well_formed d'" by (cases ev) auto
  show ?thesis
  proof (cases "lastMessageRef st = Some (JSON_stringify d')")
    case True
    with d' show ?thesis by (auto simp: onmessage_duplicate)
  next
    case False
    with d' show ?thesis by (auto simp: onmessage_fresh)
  qed
qed

lemma onmessage_discards:
  "(\<exists>d. ev = Parsed d \<and> well_formed d \<and> lastMessageRef st \<noteq> Some (JSON_stringify d)
        \<and> lastMessageRef (onmessage st ev) = Some (JSON_stringify d)
        \<and> console (onmessage st ev) = console st)
   \<or> (messages (onmessage st ev) = messages st
       \<and> lastMessageRef (onmessage st ev) = lastMessageRef st
       \<and> (\<exists>l. console (onmessage st ev) = console st @ [l]))"
proof (cases "malformed ev")
  case True
  from onmessage_malformed [OF True, of st]
  obtain l where "onmessage st ev = st\<lparr> console := console st @ [l] \<rparr>" by blast
  then show ?thesis by simp
next
  case False
  then obtain d' where d': "ev = Parsed d'" "well_formed d'" by (cases ev) auto
  show ?thesis
  proof (cases "lastMessageRef st = Some (JSON_stringify d')")
    case True
    with d' show ?thesis by (simp add: onmessage_duplicate)
  next
    case False
    with d' show ?thesis by (simp add: onmessage_fresh)
  qed
qed

text \<open>
  C2, as the code has it. A frame appends the event \<open>d\<close> to the log exactly
  when it parses to \<open>d\<close>, the \<^verbatim>\<open>topic\<close> of \<open>d\<close> is truthy (present, and
  not the empty string, \<^verbatim>\<open>0\<close>, \<^verbatim>\<open>false\<close> or \<^verbatim>\<open>null\<close>), its
  \<^verbatim>\<open>payload\<close> is present (any value, falsy ones included) and its
  serialised form is not the one in the one-slot memory. Every other frame
  changes neither the log nor the memory and writes one line to the console;
  the handler returns a state in every case.
\<close>

theorem onmessage_appends_iff:
  "((messages (onmessage st ev) = messages st @ [d])
      = (ev = Parsed d \<and> truthy (optional_chain d ''topic'') \<and> optional_chain d ''payload'' \<noteq> None
         \<and> lastMessageRef st \<noteq> Some (JSON_stringify d)))
   \<and> ((\<exists>d. messages (onmessage st ev) = messages st @ [d])
       \<or> (messages (onmessage st ev) = messages st
           \<and> lastMessageRef (onmessage st ev) = lastMessageRef st
           \<and> (\<exists>l. console (onmessage st ev) = console st @ [l])))"
  using appended_iff_accepted [of st ev d] onmessage_discards [of ev st]
    appended_iff_accepted [of st ev] unfolding well_formed_def by blast

theorem onmessage_appends_iff_witness:
  "messages (onmessage initial (iot_frame ''mod_1x1/d_000/k1'' (JNum 0)))
     = [JObj [(''topic'', JStr ''mod_1x1/d_000/k1''), (''payload'', JNum 0)]]
   \<and> messages (onmessage initial (iot_frame ''mod_1x1/d_000/k1'' (JBool False)))
     = [JObj [(''topic'', JStr ''mod_1x1/d_000/k1''), (''payload'', JBool False)]]"
  using onmessage_appends_iff [of initial "iot_frame ''mod_1x1/d_000/k1'' (JNum 0)"
      "JObj [(''topic'', JStr ''mod_1x1/d_000/k1''), (''payload'', JNum 0)]"]
    onmessage_appends_iff [of initial "iot_frame ''mod_1x1/d_000/k1'' (JBool False)"
      "JObj [(''topic'', JStr ''mod_1x1/d_000/k1''), (''payload'', JBool False)]"]
  by (simp add: iot_frame_def initial_def)

text \<open>
  The frame \<^verbatim>\<open>{"topic":"","payload":"hi!"}\<close> parses, has both fields, and
  arrives when the memory is empty; it is not appended.
\<close>

theorem present_topic_rejected_counterexample:
  "optional_chain (JObj [(''topic'', JStr ''''), (''payload'', JStr ''hi!'')]) ''topic''
     = Some (JStr '''')
   \<and> optional_chain (JObj [(''topic'', JStr ''''), (''payload'', JStr ''hi!'')]) ''payload''
     = Some (JStr ''hi!'')
   \<and> lastMessageRef initial = None
   \<and> messages (onmessage initial
        (Parsed (JObj [(''topic'', JStr ''''), (''payload'', JStr ''hi!'')]))) = messages initial"
  by (simp add: onmessage_def onmessage_try_def is_iot_def initial_def)

lemma receive_discarded:
  "list_all (\<lambda>e. malformed e \<or> e = Parsed f) rs \<Longrightarrow> well_formed f \<Longrightarrow>
   lastMessageRef st = Some (JSON_stringify f) \<Longrightarrow>
   messages (receive st rs) = messages st \<and> lastMessageRef (receive st rs) = lastMessageRef st"
proof (induction rs arbitrary: st)
  case Nil
  show ?case by (simp add: receive_def)
next
  case (Cons e rs)
  have step: "messages (onmessage st e) = messages st
      \<and> lastMessageRef (onmessage st e) = lastMessageRef st"
  proof (cases "malformed e")
    case True
    from onmessage_malformed [OF True, of st] show ?thesis by auto
  next
    case False
    with Cons.prems(1) have "e = Parsed f" by simp
    with Cons.prems(2,3) show ?thesis by (simp add: onmessage_duplicate)
  qed
  have "receive st (e # rs) = receive (onmessage st e) rs" by (simp add: receive_def)
  moreover have "messages (receive (onmessage st e) rs) = messages (onmessage st e)
      \<and> lastMessageRef (receive (onmessage st e) rs) = lastMessageRef (onmessage st e)"
    using Cons.prems step by (intro Cons.IH) simp_all
  ultimately show ?case using step by simp
qed

text \<open>
  C10. A frame either leaves the log and the one-slot memory as they are, or
  it is a well-formed event whose serialised form is not in the memory, and
  then it is appended and the memory holds its serialised form. So when a
  well-formed event \<open>f\<close> is followed by frames that are malformed or repeat
  \<open>f\<close>, and then by \<open>f\<close> again, the log is what it was after the first
  \<open>f\<close>.
\<close>

theorem slot_changes_only_on_append:
  assumes "well_formed f" and "list_all (\<lambda>e. malformed e \<or> e = Parsed f) rs"
  shows "((messages (onmessage st ev) = messages st
            \<and> lastMessageRef (onmessage st ev) = lastMessageRef st)
          \<or> (\<exists>d. ev = Parsed d \<and> well_formed d
                \<and> lastMessageRef st \<noteq> Some (JSON_stringify d)
                \<and> messages (onmessage st ev) = messages st @ [d]
                \<and> lastMessageRef (onmessage st ev) = Some (JSON_stringify d)))
       \<and> messages (receive st (Parsed f # rs @ [Parsed f])) = messages (onmessage st (Parsed f))
       \<and> lastMessageRef (receive st (Parsed f # rs @ [Parsed f])) = Some (JSON_stringify f)"
proof -
  let ?s1 = "onmessage st (Parsed f)"
  have slot1: "lastMessageRef ?s1 = Some (JSON_stringify f)"
    using assms(1) by (rule onmessage_slot)
  have mid: "messages (receive ?s1 rs) = messages ?s1
      \<and> lastMessageRef (receive ?s1 rs) = lastMessageRef ?s1"
    using assms(2,1) slot1 by (rule receive_discarded)
  have "receive st (Parsed f # rs @ [Parsed f]) = onmessage (receive ?s1 rs) (Parsed f)"
    by (simp add: receive_def)
  moreover have "onmessage (receive ?s1 rs) (Parsed f)
      = (receive ?s1 rs)\<lparr> console := console (receive ?s1 rs) @ [LogDuplicate f] \<rparr>"
    using assms(1) mid slot1 by (intro onmessage_duplicate) simp_all
  ultimately have last: "messages (receive st (Parsed f # rs @ [Parsed f])) = messages ?s1
      \<and> lastMessageRef (receive st (Parsed f # rs @ [Parsed f])) = Some (JSON_stringify f)"
    using mid slot1 by simp
  have one: "(messages (onmessage st ev) = messages st
            \<and> lastMessageRef (onmessage st ev) = lastMessageRef st)
          \<or> (\<exists>d. ev = Parsed d \<and> well_formed d
                \<and> lastMessageRef st \<noteq> Some (JSON_stringify d)
                \<and> messages (onmessage st ev) = messages st @ [d]
                \<and> lastMessageRef (onmessage st ev) = Some (JSON_stringify d))"
    using onmessage_discards [of ev st] appended_iff_accepted [of st ev] by blast
  show ?thesis using one last by blast
qed

theorem slot_changes_only_on_append_witness:
  "messages (receive initial
      [Parsed will_hi, NotJSON, Parsed JNull, Parsed no_payload, Parsed will_hi, Parsed will_hi])
     = [will_hi]"
proof -
  have 1: "well_formed will_hi" by (simp add: well_formed_def will_hi_def)
  have 2: "list_all (\<lambda>e. malformed e \<or> e = Parsed will_hi)
             [NotJSON, Parsed JNull, Parsed no_payload, Parsed will_hi]"
    by (simp add: well_formed_def no_payload_def)
  have 3: "messages (onmessage initial (Parsed will_hi)) = [will_hi]"
    by (simp add: onmessage_fresh [OF 1] initial_def)
  from slot_changes_only_on_append [OF 1 2, of initial] 3 show ?thesis by simp
qed

section \<open>Reconnection and teardown of the channel\<close>

lemma timers_ok_initial: "timers_ok initial"
  by (simp add: timers_ok_def initial_def)

lemma timers_ok_connect: "timers_ok st \<Longrightarrow> timers_ok (connect st)"
  by (auto simp: timers_ok_def connect_def Let_def list_all_iff less_Suc_eq)

lemma timers_ok_set_readyState: "timers_ok st \<Longrightarrow> timers_ok (set_readyState s r st)"
  by (auto simp: timers_ok_def set_readyState_def split: option.splits)

lemma timers_ok_socket_close: "timers_ok st \<Longrightarrow> timers_ok (socket_close s st)"
  by (auto simp: timers_ok_def socket_close_def split: option.splits)

lemma timers_ok_onclose: "timers_ok st \<Longrightarrow> timers_ok (onclose s st)"
  by (auto simp: timers_ok_def onclose_def clearInterval_def Let_def list_all_iff less_Suc_eq
      split: option.splits)

lemma timers_ok_ping: "timers_ok st \<Longrightarrow> timers_ok (ping s st)"
  by (auto simp: timers_ok_def ping_def split: option.splits)

lemma timers_ok_onmessage: "timers_ok st \<Longrightarrow> timers_ok (onmessage st ev)"
  by (auto simp: timers_ok_def onmessage_def onmessage_try_def Let_def
      split: sum.splits frame.splits bool.splits if_splits)

lemma timers_ok_step: "timers_ok st \<Longrightarrow> timers_ok (step st e)"
proof (cases e)
  case Mount
  assume "timers_ok st"
  then have "timers_ok (connect st)" by (rule timers_ok_connect)
  then show ?thesis using Mount by (simp add: useEffect_mount_def timers_ok_def)
next
  case (Open s)
  assume "timers_ok st"
  then have "timers_ok (set_readyState s OPEN st)" by (rule timers_ok_set_readyState)
  then show ?thesis using Open by (simp add: onopen_def timers_ok_def)
next
  case (Frame s ev)
  assume "timers_ok st"
  then show ?thesis using Frame by (simp add: timers_ok_onmessage)
next
  case (Error s)
  assume "timers_ok st"
  then have "timers_ok (st\<lparr> console := console st @ [LogSocketError] \<rparr>)"
    by (simp add: timers_ok_def)
  then show ?thesis using Error by (simp add: onerror_def timers_ok_socket_close)
next
  case (Close s)
  assume "timers_ok st"
  then show ?thesis using Close by (simp add: timers_ok_onclose timers_ok_set_readyState)
next
  case (Tick h)
  assume "timers_ok st"
  then show ?thesis using Tick by (simp add: timers_ok_ping split: option.splits)
next
  case (Fire h)
  assume a: "timers_ok st"
  then have "timers_ok (st\<lparr> timeouts := filter (\<lambda>e. fst e \<noteq> h) (timeouts st) \<rparr>)"
    by (auto simp: timers_ok_def list_all_iff)
  then show ?thesis using Fire a by (simp add: timers_ok_connect)
next
  case Unmount
  assume "timers_ok st"
  then show ?thesis using Unmount
    by (simp add: useEffect_cleanup_def timers_ok_socket_close split: option.splits)
qed

lemma run_snoc: "run st (evs @ [e]) = step (run st evs) e"
  by (simp add: run_def)

lemma timers_ok_run: "timers_ok (run initial evs)"
proof (induction evs rule: rev_induct)
  case Nil
  show ?case by (simp add: run_def timers_ok_initial)
next
  case (snoc e evs)
  then show ?case by (simp add: run_snoc timers_ok_step)
qed

lemma filter_fresh: "list_all (\<lambda>e. fst e < (n::nat)) xs \<Longrightarrow> filter (\<lambda>e. fst e \<noteq> n) xs = xs"
  by (induction xs) auto

lemma find_fresh:
  "list_all (\<lambda>e. fst e < (n::nat)) xs \<Longrightarrow>
   find (\<lambda>e. fst e = n) (xs @ [(n, y)]) = Some (n, y)"
  by (induction xs) auto

lemma close_timeouts: "timeouts (step st (Close s)) = timeouts st @ [(next_handle st, 3000)]"
  by (simp add: onclose_def set_readyState_def clearInterval_def Let_def split: option.splits)

lemma close_next_handle: "next_handle (step st (Close s)) = Suc (next_handle st)"
  by (simp add: onclose_def set_readyState_def clearInterval_def Let_def split: option.splits)

lemma close_next_socket: "next_socket (step st (Close s)) = next_socket st"
  by (simp add: onclose_def set_readyState_def clearInterval_def Let_def split: option.splits)

lemma close_intervals:
  "sockets st s = Some sk \<Longrightarrow> pingInterval sk = Some h \<Longrightarrow>
   intervals (step st (Close s)) = filter (\<lambda>e. fst e \<noteq> h) (intervals st)"
  by (simp add: onclose_def set_readyState_def clearInterval_def Let_def)

lemma reconnect_cycles_state:
  "ws (run initial (Mount # reconnect_cycles n)) = Some n
   \<and> timeouts (run initial (Mount # reconnect_cycles n)) = []
   \<and> intervals (run initial (Mount # reconnect_cycles n)) = [(2 * n, n, 60000)]
   \<and> next_socket (run initial (Mount # reconnect_cycles n)) = Suc n
   \<and> next_handle (run initial (Mount # reconnect_cycles n)) = 2 * n + 1
   \<and> sockets (run initial (Mount # reconnect_cycles n)) n
       = Some \<lparr> readyState = CONNECTING, pingInterval = Some (2 * n), sent = [] \<rparr>"
proof (induction n)
  case 0
  show ?case
    by (simp add: reconnect_cycles_def run_def initial_def useEffect_mount_def connect_def Let_def)
next
  case (Suc n)
  let ?st = "run initial (Mount # reconnect_cycles n)"
  have unfold: "run initial (Mount # reconnect_cycles (Suc n))
      = step (step ?st (Close n)) (Fire (2 * n + 1))"
    by (simp add: reconnect_cycles_def run_def)
  show ?case unfolding unfold using Suc.IH
    by (simp add: onclose_def clearInterval_def set_readyState_def connect_def Let_def)
qed

lemma nth_close_schedules_reconnect:
  "timeouts (run initial (Mount # reconnect_cycles n @ [Close n])) = [(2 * n + 1, 3000)]"
proof -
  let ?st = "run initial (Mount # reconnect_cycles n)"
  have "run initial (Mount # reconnect_cycles n @ [Close n]) = step ?st (Close n)"
    by (simp add: run_def)
  moreover have "timeouts (step ?st (Close n)) = timeouts ?st @ [(next_handle ?st, 3000)]"
    by (rule close_timeouts)
  ultimately show ?thesis using reconnect_cycles_state [of n] by simp
qed

text \<open>
  C7. In every state the component reaches, whatever happened before, the
  close event of a socket adds exactly one timeout, with the delay 3000 ms, and
  removes that socket's keep-alive interval. When that timeout fires, it is
  consumed and \<^verbatim>\<open>connect\<close> makes a new socket with a new keep-alive
  interval of 60000 ms, which sends \<^verbatim>\<open>ping\<close> once the socket is open.
  However many times \<open>n\<close> the connection was lost and made again before,
  the next close schedules its one reconnect with the same delay.
\<close>

theorem close_schedules_one_reconnect:
  assumes "st = run initial evs" and "sockets st s = Some sk"
    and "closed = step st (Close s)"
    and "again = step closed (Fire (next_handle st))"
  shows "timeouts closed = timeouts st @ [(next_handle st, 3000)]
       \<and> (\<exists>h. pingInterval sk = Some h
              \<and> intervals closed = filter (\<lambda>e. fst e \<noteq> h) (intervals st)
              \<and> list_all (\<lambda>e. fst e \<noteq> h) (intervals closed))
       \<and> timeouts again = timeouts st
       \<and> ws again = Some (next_socket st)
       \<and> sockets again (next_socket st)
           = Some \<lparr> readyState = CONNECTING, pingInterval = Some (Suc (next_handle st)), sent = [] \<rparr>
       \<and> intervals again = intervals closed @ [(Suc (next_handle st), next_socket st, 60000)]
       \<and> (case sockets (run again [Open (next_socket st), Tick (Suc (next_handle st))])
                  (next_socket st) of
             None \<Rightarrow> False
           | Some sk' \<Rightarrow> readyState sk' = OPEN \<and> sent sk' = [''ping''])
       \<and> timeouts (run initial (Mount # reconnect_cycles n @ [Close n])) = [(2 * n + 1, 3000)]"
proof -
  have ok: "timers_ok st" unfolding assms(1) by (rule timers_ok_run)
  then obtain h where h: "pingInterval sk = Some h"
    using assms(2) unfolding timers_ok_def by blast
  have t1: "timeouts closed = timeouts st @ [(next_handle st, 3000)]"
    unfolding assms(3) by (rule close_timeouts)
  have i1: "intervals closed = filter (\<lambda>e. fst e \<noteq> h) (intervals st)"
    unfolding assms(3) using assms(2) h by (rule close_intervals)
  have i1': "list_all (\<lambda>e. fst e \<noteq> h) (intervals closed)"
    unfolding i1 by (simp add: list_all_iff)
  have nh: "next_handle closed = Suc (next_handle st)"
    unfolding assms(3) by (rule close_next_handle)
  have ns: "next_socket closed = next_socket st"
    unfolding assms(3) by (rule close_next_socket)
  have fresh: "list_all (\<lambda>e. fst e < next_handle st) (timeouts st)"
    using ok by (auto simp: timers_ok_def list_all_iff)
  have flt: "filter (\<lambda>e. fst e \<noteq> next_handle st) (timeouts closed) = timeouts st"
    unfolding t1 using filter_fresh [OF fresh] by simp
  have mem: "next_handle st \<in> fst ` set (timeouts closed)" unfolding t1 by simp
  have again: "again = connect (closed\<lparr> timeouts := timeouts st \<rparr>)"
    unfolding assms(4) using mem flt by simp
  have t2: "timeouts again = timeouts st" unfolding again by (simp add: connect_def Let_def)
  have w2: "ws again = Some (next_socket st)"
    unfolding again by (simp add: connect_def Let_def ns)
  have s2: "sockets again (next_socket st)
      = Some \<lparr> readyState = CONNECTING, pingInterval = Some (Suc (next_handle st)), sent = [] \<rparr>"
    unfolding again by (simp add: connect_def Let_def ns nh)
  have i2: "intervals again = intervals closed @ [(Suc (next_handle st), next_socket st, 60000)]"
    unfolding again by (simp add: connect_def Let_def ns nh)
  have okc: "timers_ok closed" unfolding assms(3) using ok by (rule timers_ok_step)
  then have "list_all (\<lambda>e. fst e < Suc (next_handle st)) (intervals closed)"
    by (simp add: timers_ok_def nh)
  then have fnd: "find (\<lambda>e. fst e = Suc (next_handle st)) (intervals again)
      = Some (Suc (next_handle st), next_socket st, 60000)"
    unfolding i2 by (rule find_fresh)
  have ping: "(case sockets (run again [Open (next_socket st), Tick (Suc (next_handle st))])
                  (next_socket st) of
             None \<Rightarrow> False
           | Some sk' \<Rightarrow> readyState sk' = OPEN \<and> sent sk' = [''ping''])"
    using fnd s2 by (simp add: run_def onopen_def set_readyState_def ping_def)
  show ?thesis
    using t1 h i1 i1' t2 w2 s2 i2 ping nth_close_schedules_reconnect [of n] by blast
qed

theorem close_schedules_one_reconnect_witness:
  "timeouts (run initial [Mount, Open 0, Error 0, Close 0]) = [(1, 3000)]
   \<and> intervals (run initial [Mount, Open 0, Error 0, Close 0]) = []
   \<and> ws (run initial [Mount, Open 0, Error 0, Close 0, Fire 1]) = Some 1
   \<and> intervals (run initial [Mount, Open 0, Error 0, Close 0, Fire 1]) = [(2, 1, 60000)]"
proof -
  let ?st = "run initial [Mount, Open 0, Error 0]"
  have 1: "sockets ?st 0 = Some \<lparr> readyState = CLOSING, pingInterval = Some 0, sent = [] \<rparr>"
    by (simp add: run_def initial_def useEffect_mount_def connect_def onopen_def onerror_def
        socket_close_def set_readyState_def Let_def)
  from close_schedules_one_reconnect [OF refl 1 refl refl]
  show ?thesis
    by (simp add: run_def initial_def useEffect_mount_def connect_def onopen_def onclose_def
        onerror_def socket_close_def clearInterval_def set_readyState_def Let_def)
qed

text \<open>
  C6. The component is mounted, its socket opens, and the component is
  unmounted: the cleanup reads the \<^verbatim>\<open>ws\<close> of the first render, which is
  \<^verbatim>\<open>null\<close>, so the socket stays open and its keep-alive interval stays
  armed. When the socket closes later, a reconnect is scheduled and run.
\<close>

theorem unmount_leaves_channel_open:
  "sockets (run initial [Mount, Open 0, Unmount]) 0
     = Some \<lparr> readyState = OPEN, pingInterval = Some 0, sent = [] \<rparr>
   \<and> intervals (run initial [Mount, Open 0, Unmount]) = [(0, 0, 60000)]
   \<and> timeouts (run initial [Mount, Open 0, Unmount, Close 0]) = [(1, 3000)]
   \<and> ws (run initial [Mount, Open 0, Unmount, Close 0, Fire 1]) = Some 1"
  by (simp add: run_def initial_def useEffect_mount_def useEffect_cleanup_def connect_def
      onopen_def onclose_def clearInterval_def set_readyState_def Let_def)

section \<open>The presence tracker\<close>

lemmas tracker_eval = track_def tracker_initial_def ask_begin_def ask_resume_def
  clear_timerRef_def advance_def expire_def handleMessage_def handleMessage_try_def
  will_branch_def status_branch_def go_online_def go_offline_def iot_frame_def Let_def
  isHi_def isBye_def

lemma ask_request:
  "requests (ask_begin p st) = requests st @
     [\<lparr> url = apiUrl p, body_deviceId = deviceId p, body_path = ''askInfo'', body_value = ''hi'' \<rparr>]"
  by (simp add: ask_begin_def clear_timerRef_def Let_def split: option.splits)

lemma other_topics_ignored:
  assumes "optional_chain d ''topic'' \<noteq> Some (JStr ''mod_1x1/d_000/answerInfo'')"
    and "optional_chain d ''topic'' \<noteq> Some (JStr ''mod_1x1/d_000/will'')"
    and "optional_chain d ''topic'' \<noteq> Some (JStr ''mod_1x1/d_000/status'')"
  shows "handleMessage st (Parsed d) = st"
  using assms
  by (simp add: handleMessage_def handleMessage_try_def will_branch_def status_branch_def Let_def)

lemma answer_cancels_armed_timeout:
  assumes "timerRef st = Some h" and "list_all (\<lambda>e. fst e = h) (pending st)"
  shows "status (handleMessage st (iot_frame ''mod_1x1/d_000/answerInfo'' (JStr ''hi!''))) = Online
       \<and> pending (handleMessage st (iot_frame ''mod_1x1/d_000/answerInfo'' (JStr ''hi!''))) = []
       \<and> status (advance d (handleMessage st
            (iot_frame ''mod_1x1/d_000/answerInfo'' (JStr ''hi!'')))) = Online"
proof -
  have hi: "isHi (Some (JStr ''hi!'')) = Inr True" by (simp add: isHi_def string_eval)
  have flt: "filter (\<lambda>e. fst e \<noteq> h) (pending st) = []"
    using assms(2) by (induction "pending st") (auto simp: list_all_iff filter_empty_conv)
  have "handleMessage st (iot_frame ''mod_1x1/d_000/answerInfo'' (JStr ''hi!''))
      = st\<lparr> status := Online, pending := [] \<rparr>"
    using assms(1) flt
    by (simp add: handleMessage_def handleMessage_try_def iot_frame_def hi go_online_def
        clear_timerRef_def)
  then show ?thesis by (simp add: advance_def)
qed

lemma clear_timerRef_one_timeout: "one_timeout st \<Longrightarrow> pending (clear_timerRef st) = []"
  by (auto simp: one_timeout_def clear_timerRef_def split: option.splits)

lemma one_timeout_status: "one_timeout (st\<lparr> status := x \<rparr>) = one_timeout st"
  by (simp add: one_timeout_def)

lemma one_timeout_console: "one_timeout (st\<lparr> tracker_console := x \<rparr>) = one_timeout st"
  by (simp add: one_timeout_def)

lemma one_timeout_clear: "one_timeout st \<Longrightarrow> one_timeout (clear_timerRef st)"
  using clear_timerRef_one_timeout [of st] by (simp add: one_timeout_def)

lemma one_timeout_handleMessage: "one_timeout st \<Longrightarrow> one_timeout (handleMessage st ev)"
  by (auto simp: handleMessage_def handleMessage_try_def will_branch_def status_branch_def
      go_online_def go_offline_def Let_def one_timeout_status one_timeout_console
      one_timeout_clear split: frame.splits sum.splits bool.splits if_splits)

lemma one_timeout_advance: "one_timeout st \<Longrightarrow> one_timeout (advance d st)"
proof (cases "pending st")
  case Nil
  then show ?thesis by (simp add: one_timeout_def advance_def Let_def)
next
  case (Cons e es)
  assume "one_timeout st"
  with Cons obtain h due where p: "pending st = [(h, due)]" "timerRef st = Some h"
    by (auto simp: one_timeout_def)
  show ?thesis
  proof (cases "due \<le> clock st + d")
    case True
    with p show ?thesis by (simp add: one_timeout_def advance_def expire_def Let_def)
  next
    case False
    with p show ?thesis by (simp add: one_timeout_def advance_def expire_def Let_def)
  qed
qed

lemma one_timeout_ask_begin: "one_timeout st \<Longrightarrow> pending (ask_begin p st) = []"
  using clear_timerRef_one_timeout [of "st\<lparr> status := Checking \<rparr>"]
  by (simp add: ask_begin_def Let_def one_timeout_status)

lemma one_timeout_ask_resume:
  "pending st = [] \<Longrightarrow> one_timeout (ask_resume ok st)"
  by (simp add: ask_resume_def one_timeout_def Let_def)

lemma sequential_check_one_timeout:
  assumes "one_timeout st" and "suspended st = 0"
  shows "pending (ask_resume ok (ask_begin p st)) = [(next_timer st, clock st + 4000)]
       \<and> timerRef (ask_resume ok (ask_begin p st)) = Some (next_timer st)"
proof -
  have "pending (ask_begin p st) = []" using assms(1) by (rule one_timeout_ask_begin)
  moreover have "suspended (ask_begin p st) = 1 \<and> next_timer (ask_begin p st) = next_timer st
      \<and> clock (ask_begin p st) = clock st"
    using assms(2) by (simp add: ask_begin_def clear_timerRef_def Let_def split: option.splits)
  ultimately show ?thesis by (simp add: ask_resume_def Let_def)
qed

text \<open>
  When every request settles at once, the three timing scenarios of the
  specification go as it says: a check with no answer is still checking after
  3999 ms and offline after 4000 ms, for good; an answer after 3999 ms gives
  online, and the timeout never fires; a second check 1000 ms after the first
  cancels the first's timeout, so nothing happens at 4000 ms and the status
  becomes offline at 5000 ms.
\<close>

lemma scenarios_with_prompt_requests:
  "status (track p [Ask, Settled True, Advance 3999]) = Checking
   \<and> status (track p [Ask, Settled True, Advance 4000]) = Offline
   \<and> pending (track p [Ask, Settled True, Advance 4000]) = []
   \<and> status (track p [Ask, Settled True, Advance 3999,
        Message (iot_frame ''mod_1x1/d_000/answerInfo'' (JStr ''hi!'')), Advance 1]) = Online
   \<and> pending (track p [Ask, Settled True, Advance 3999,
        Message (iot_frame ''mod_1x1/d_000/answerInfo'' (JStr ''hi!''))]) = []
   \<and> status (track p [Ask, Settled True, Advance 1000, Ask, Settled True, Advance 3000])
       = Checking
   \<and> pending (track p [Ask, Settled True, Advance 1000, Ask, Settled True, Advance 3000])
       = [(1, 5000)]
   \<and> status (track p [Ask, Settled True, Advance 1000, Ask, Settled True, Advance 4000])
       = Offline"
  by (simp add: tracker_eval string_eval)

text \<open>
  C3. A second check is requested 50 ms after the first, while the first
  request is still under way; both requests settle afterwards. Each call
  cleared \<^verbatim>\<open>timerRef\<close> before either had made its timeout, so two timeouts
  are pending and \<^verbatim>\<open>timerRef\<close> holds the second. An answer then cancels
  the second only, and the first turns the status from online to offline.
\<close>

theorem overlapping_checks_leave_two_timeouts:
  "pending (track p [Ask, Advance 50, Ask, Advance 70, Settled True, Advance 50, Settled True])
     = [(0, 4120), (1, 4170)]
   \<and> timerRef (track p [Ask, Advance 50, Ask, Advance 70, Settled True, Advance 50, Settled True])
     = Some 1
   \<and> status (track p [Ask, Advance 50, Ask, Advance 70, Settled True, Advance 50, Settled True,
        Advance 130, Message (iot_frame ''mod_1x1/d_000/answerInfo'' (JStr ''hi!''))]) = Online
   \<and> pending (track p [Ask, Advance 50, Ask, Advance 70, Settled True, Advance 50, Settled True,
        Advance 130, Message (iot_frame ''mod_1x1/d_000/answerInfo'' (JStr ''hi!''))])
     = [(0, 4120)]
   \<and> status (track p [Ask, Advance 50, Ask, Advance 70, Settled True, Advance 50, Settled True,
        Advance 130, Message (iot_frame ''mod_1x1/d_000/answerInfo'' (JStr ''hi!'')),
        Advance 3820]) = Offline"
  by (simp add: tracker_eval string_eval)

text \<open>
  C4. The device announces itself on its \<^verbatim>\<open>will\<close> topic while the request
  of a check is still under way: the status is online when the request settles
  and the timeout is made, and 4000 ms later the timeout turns it from online
  to offline. And while a request never settles, no timeout exists: the status
  is still checking after a minute.
\<close>

theorem timeout_fires_outside_checking:
  "status (track p [Ask, Advance 80, Message (iot_frame ''mod_1x1/d_000/will'' (JStr ''hi!'')),
        Advance 40, Settled True]) = Online
   \<and> pending (track p [Ask, Advance 80, Message (iot_frame ''mod_1x1/d_000/will'' (JStr ''hi!'')),
        Advance 40, Settled True]) = [(0, 4120)]
   \<and> status (track p [Ask, Advance 80, Message (iot_frame ''mod_1x1/d_000/will'' (JStr ''hi!'')),
        Advance 40, Settled True, Advance 4000]) = Offline
   \<and> status (track p [Ask, Advance 60000]) = Checking
   \<and> pending (track p [Ask, Advance 60000]) = []"
  by (simp add: tracker_eval string_eval)

text \<open>
  C5. The answer to a check arrives 80 ms after the check began, before the
  request has settled: the status becomes online, there is no timeout to
  cancel yet, the timeout is made when the request settles 40 ms later, and it
  turns the status to offline.
\<close>

theorem early_answer_overridden_by_timeout:
  "status (track p [Ask, Advance 80,
        Message (iot_frame ''mod_1x1/d_000/answerInfo'' (JStr ''hi!''))]) = Online
   \<and> pending (track p [Ask, Advance 80,
        Message (iot_frame ''mod_1x1/d_000/answerInfo'' (JStr ''hi!'')),
        Advance 40, Settled True]) = [(0, 4120)]
   \<and> status (track p [Ask, Advance 80,
        Message (iot_frame ''mod_1x1/d_000/answerInfo'' (JStr ''hi!'')),
        Advance 40, Settled True, Advance 4000]) = Offline"
  by (simp add: tracker_eval string_eval)

text \<open>
  C9. A tracker for the device \<^verbatim>\<open>d_001\<close> sends its liveness request with
  that identifier, ignores the answer on \<^verbatim>\<open>mod_1x1/d_001/answerInfo\<close> and
  goes online on the answer of another device, on
  \<^verbatim>\<open>mod_1x1/d_000/answerInfo\<close>.
\<close>

theorem tracker_topics_ignore_deviceId:
  "map body_deviceId (requests (track \<lparr> apiUrl = u, deviceId = ''d_001'' \<rparr> [Ask, Settled True]))
     = [''d_001'']
   \<and> status (track \<lparr> apiUrl = u, deviceId = ''d_001'' \<rparr> [Ask, Settled True,
        Message (iot_frame ''mod_1x1/d_001/answerInfo'' (JStr ''hi!''))]) = Checking
   \<and> status (track \<lparr> apiUrl = u, deviceId = ''d_001'' \<rparr> [Ask, Settled True,
        Message (iot_frame ''mod_1x1/d_000/answerInfo'' (JStr ''hi!''))]) = Online"
  by (simp add: tracker_eval string_eval)

end
